theory Spec2Isabelle
  imports Main "HOL-Library.Multiset"
begin

section \<open>Promises, errors and the Timeout Guard\<close>

text \<open>
  A rejection reason is either an \<^verbatim>\<open>Error\<close> object with its message or some other
  thrown value, which has no \<^verbatim>\<open>message\<close> property. The reasons are taken to be
  objects or primitives other than \<^verbatim>\<open>null\<close> and \<^verbatim>\<open>undefined\<close>, as the reasons of
  the generation service and of \<^verbatim>\<open>withTimeout\<close> are.
\<close>

datatype js_error = JsError string | Thrown

text \<open>
  A promise settles once, fulfilled with a value or rejected with a reason. The
  caller of \<^verbatim>\<open>withTimeout\<close> sees two kinds of signals: the wrapped promise
  settles, or the time of the timer set by \<^verbatim>\<open>setTimeout\<close> elapses. The argument
  \<^verbatim>\<open>ms\<close> only fixes when the second signal takes place relative to the first,
  so the order of the signals stands for it.
\<close>

datatype 'a outcome = Fulfilled 'a | Rejected js_error

datatype 'a signal = Settles "'a outcome" | Deadline

datatype timer = TimerPending | TimerCleared | TimerFired

record 'a guard =
  timer :: timer
  clearCalls :: nat
  settled :: "(js_error + 'a) option"

text \<open>
  \<^verbatim>\<open>withTimeout(promise, ms, errorMsg)\<close>: the timer is set, the race of
  \<^verbatim>\<open>promise.then(val => { clearTimeout(timer); return val; })\<close> and the timeout
  promise is pending.
\<close>

definition withTimeout_start :: "'a guard" where
  "withTimeout_start = \<lparr>timer = TimerPending, clearCalls = 0, settled = None\<rparr>"

text \<open>The race keeps the first settlement.\<close>

definition settle :: "(js_error + 'a) \<Rightarrow> 'a guard \<Rightarrow> 'a guard" where
  "settle r g = (case settled g of None \<Rightarrow> g\<lparr>settled := Some r\<rparr> | Some _ \<Rightarrow> g)"

text \<open>\<^verbatim>\<open>clearTimeout(timer)\<close>: a pending timer is cancelled, any other is left as it is.\<close>

definition clearTimeout :: "'a guard \<Rightarrow> 'a guard" where
  "clearTimeout g =
     g\<lparr>timer := (if timer g = TimerPending then TimerCleared else timer g),
       clearCalls := clearCalls g + 1\<rparr>"

text \<open>
  The fulfilment handler clears the timer and passes the value on; a rejection of the
  wrapped promise skips the handler and rejects the race; the timer's callback, which
  only a pending timer runs, rejects with \<^verbatim>\<open>new Error(errorMsg)\<close>.
\<close>

fun withTimeout_step :: "string \<Rightarrow> 'a guard \<Rightarrow> 'a signal \<Rightarrow> 'a guard" where
  "withTimeout_step errorMsg g (Settles (Fulfilled val)) = settle (Inr val) (clearTimeout g)"
| "withTimeout_step errorMsg g (Settles (Rejected e)) = settle (Inl e) g"
| "withTimeout_step errorMsg g Deadline =
     (if timer g = TimerPending then settle (Inl (JsError errorMsg)) (g\<lparr>timer := TimerFired\<rparr>)
      else g)"

definition withTimeout :: "string \<Rightarrow> 'a signal list \<Rightarrow> 'a guard" where
  "withTimeout errorMsg sigs = foldl (withTimeout_step errorMsg) withTimeout_start sigs"

text \<open>What a caller awaiting the guard resumes with, given the first signal.\<close>

fun race :: "string \<Rightarrow> 'a signal \<Rightarrow> js_error + 'a" where
  "race errorMsg (Settles (Fulfilled val)) = Inr val"
| "race errorMsg (Settles (Rejected e)) = Inl e"
| "race errorMsg Deadline = Inl (JsError errorMsg)"

text \<open>A promise settles at most once.\<close>

fun settlements :: "'a signal list \<Rightarrow> nat" where
  "settlements [] = 0"
| "settlements (Settles _ # sigs) = Suc (settlements sigs)"
| "settlements (Deadline # sigs) = settlements sigs"


section \<open>Data model\<close>

text \<open>
  Modelled from the spec: the enumeration \<^verbatim>\<open>AppState\<close> of the types module, which is
  not among the sources. The spec gives the phases Planning, RouteConfirmed,
  GeneratingInitialSegment and ReadyToPlay in this order; the code compares phases by
  their numeric rank (\<^verbatim>\<open>appState < AppState.READY_TO_PLAY\<close>).
\<close>

datatype AppState = PLANNING | ROUTE_CONFIRMED | GENERATING_INITIAL_SEGMENT | READY_TO_PLAY

fun phase_rank :: "AppState \<Rightarrow> nat" where
  "phase_rank PLANNING = 0"
| "phase_rank ROUTE_CONFIRMED = 1"
| "phase_rank GENERATING_INITIAL_SEGMENT = 2"
| "phase_rank READY_TO_PLAY = 3"

datatype TravelMode = WALKING | DRIVING

datatype StoryStyle = NOIR | CHILDREN | HISTORICAL | FANTASY

record RouteDetails =
  startAddress :: string
  endAddress :: string
  distance :: string
  duration :: string
  durationSeconds :: int
  travelMode :: TravelMode
  voiceName :: string
  storyStyle :: StoryStyle

text \<open>
  \<^verbatim>\<open>generateSegment\<close> answers with the segment's index and text; the stored segment
  is \<^verbatim>\<open>{ ...segmentData, audioBuffer }\<close>. An audio buffer is opaque: a number names it.
\<close>

type_synonym audio = nat

record SegmentData =
  index :: int
  "text" :: string

record Segment = SegmentData +
  audioBuffer :: audio

definition withAudio :: "SegmentData \<Rightarrow> audio \<Rightarrow> Segment" where
  "withAudio segmentData buf =
     \<lparr>index = index segmentData, text = text segmentData, audioBuffer = buf\<rparr>"

record AudioStory =
  totalSegmentsEstimate :: int
  outline :: "string list"
  segments :: "Segment list"

text \<open>
  Modelled from the spec: \<^verbatim>\<open>calculateTotalSegments\<close> of the generation service, which
  is not among the sources: the route's duration over a fixed target of seconds per
  segment (120 in the spec's example), rounded as \<^verbatim>\<open>Math.round\<close> does, at least 1.
\<close>

definition calculateTotalSegments :: "int \<Rightarrow> int" where
  "calculateTotalSegments seconds = max 1 ((seconds + 60) div 120)"

section \<open>Strings\<close>

fun starts_with :: "string \<Rightarrow> string \<Rightarrow> bool" where
  "starts_with s [] = True"
| "starts_with [] (c # cs) = False"
| "starts_with (x # xs) (c # cs) = (x = c \<and> starts_with xs cs)"

text \<open>\<^verbatim>\<open>s.includes(t)\<close>\<close>

fun str_includes :: "string \<Rightarrow> string \<Rightarrow> bool" where
  "str_includes [] t = (t = [])"
| "str_includes (x # xs) t = (starts_with (x # xs) t \<or> str_includes xs t)"

text \<open>\<^verbatim>\<open>parts.join(" ")\<close>\<close>

fun join_spaces :: "string list \<Rightarrow> string" where
  "join_spaces [] = []"
| "join_spaces [p] = p"
| "join_spaces (p # q # ps) = p @ '' '' @ join_spaces (q # ps)"

text \<open>\<^verbatim>\<open>s.slice(-n)\<close>: the last \<open>n\<close> characters, all of \<open>s\<close> when it is shorter.\<close>

definition slice_last :: "nat \<Rightarrow> string \<Rightarrow> string" where
  "slice_last n s = drop (length s - n) s"

text \<open>
  \<^verbatim>\<open>outline[i] || fallback\<close>: an index out of range reads \<^verbatim>\<open>undefined\<close>, and the
  empty string is falsy as well.
\<close>

definition beat_or :: "string list \<Rightarrow> int \<Rightarrow> string \<Rightarrow> string" where
  "beat_or beats i fallback =
     (if 0 \<le> i \<and> i < int (length beats) \<and> beats ! nat i \<noteq> [] then beats ! nat i
      else fallback)"

text \<open>The decimal digits a template literal prints for an integer.\<close>

definition digit_char :: "nat \<Rightarrow> char" where
  "digit_char d = char_of (48 + d)"

function show_nat :: "nat \<Rightarrow> string" where
  "show_nat n = (if n < 10 then [digit_char n] else show_nat (n div 10) @ [digit_char (n mod 10)])"
  by pat_completeness auto
termination
  by (relation "measure (\<lambda>n. n)") auto

definition show_int :: "int \<Rightarrow> string" where
  "show_int i = (if i < 0 then CHR ''-'' # show_nat (nat (- i)) else show_nat (nat i))"

section \<open>The application state\<close>

text \<open>What the code writes to the console, its only observability sink.\<close>

datatype console_entry =
    StartingGeneration int
  | SegmentReady int
  | FailedToGenerate int js_error
  | InitialGenerationFailed js_error

text \<open>The remote calls issued, with their arguments.\<close>

datatype request =
    GenerateStoryOutline RouteDetails int
  | GenerateSegment RouteDetails int int string string
  | GenerateSegmentAudio string nat string

text \<open>
  An asynchronous invocation is suspended at one of its \<^verbatim>\<open>await\<close>s and holds the
  local variables it still needs; an invocation of \<^verbatim>\<open>handleGenerateStory\<close> also keeps
  its argument \<^verbatim>\<open>details\<close>. \<open>Bg\<close> are the stages of \<^verbatim>\<open>generateNextSegment\<close>,
  \<open>Init\<close> those of \<^verbatim>\<open>handleGenerateStory\<close>; a context is named by its position in
  \<open>contexts\<close>.
\<close>

datatype proc =
    Finished
  | BgText RouteDetails int
  | BgAudio int SegmentData nat
  | BgClose int SegmentData audio nat
  | InitOutline RouteDetails int
  | InitText RouteDetails int "string list"
  | InitAudio RouteDetails int "string list" SegmentData nat
  | InitClose RouteDetails int "string list" SegmentData audio nat

record app =
  appState :: AppState
  route :: "RouteDetails option"
  story :: "AudioStory option"
  loadingMessage :: string
  scriptError :: "string option"
  generationError :: "string option"
  isGeneratingRef :: bool
  isBackgroundGenerating :: bool
  currentPlayingIndex :: int
  console :: "console_entry list"
  requests :: "request list"
  contexts :: "bool list"
  procs :: "proc list"

text \<open>The state of the first render; \<open>contexts\<close> holds \<open>True\<close> for an open context.\<close>

definition initial :: app where
  "initial =
     \<lparr>appState = PLANNING, route = None, story = None, loadingMessage = [],
      scriptError = None, generationError = None, isGeneratingRef = False,
      isBackgroundGenerating = False, currentPlayingIndex = 0, console = [],
      requests = [], contexts = [], procs = []\<rparr>"

section \<open>The Continuous Buffering Engine\<close>

text \<open>
  \<^verbatim>\<open>generateNextSegment\<close> up to its first \<^verbatim>\<open>await\<close>: the guard, the lock, and the
  request for the segment's text.
\<close>

definition generateNextSegment :: "int \<Rightarrow> app \<Rightarrow> app" where
  "generateNextSegment idx s =
     (case route s of
        None \<Rightarrow> s
      | Some r \<Rightarrow>
         (case story s of
            None \<Rightarrow> s
          | Some st \<Rightarrow>
             if isGeneratingRef s then s
             else
               let allPreviousText = slice_last 3000 (join_spaces (map text (segments st)));
                   segmentOutline = beat_or (outline st) (idx - 1)
                     ''Continue the journey towards the final destination.''
               in s\<lparr>isGeneratingRef := True,
                     isBackgroundGenerating := True,
                     console := console s @ [StartingGeneration idx],
                     requests := requests s @
                       [GenerateSegment r idx (totalSegmentsEstimate st) segmentOutline
                          allPreviousText],
                     procs := procs s @ [BgText r idx]\<rparr>))"

text \<open>The body of the effect that depends on story, route, appState and currentPlayingIndex.\<close>

definition bufferingEffect :: "app \<Rightarrow> app" where
  "bufferingEffect s =
     (case story s of
        None \<Rightarrow> s
      | Some st \<Rightarrow>
         (case route s of
            None \<Rightarrow> s
          | Some r \<Rightarrow>
             if phase_rank (appState s) < phase_rank READY_TO_PLAY then s
             else
               let totalGenerated = int (length (segments st));
                   neededBufferIndex = currentPlayingIndex s + 3
               in if totalGenerated < neededBufferIndex
                     \<and> totalGenerated < totalSegmentsEstimate st
                     \<and> \<not> isGeneratingRef s
                  then generateNextSegment (totalGenerated + 1) s
                  else s))"

text \<open>The updater passed to \<^verbatim>\<open>setStory\<close> when a pipeline has produced its segment.\<close>

definition mergeSegment :: "int \<Rightarrow> SegmentData \<Rightarrow> audio \<Rightarrow> AudioStory option \<Rightarrow> AudioStory option" where
  "mergeSegment idx segmentData buf prev =
     (case prev of
        None \<Rightarrow> None
      | Some st \<Rightarrow>
          if list_ex (\<lambda>sg. index sg = idx) (segments st) then Some st
          else Some (st\<lparr>segments := sort_key index (segments st @ [withAudio segmentData buf])\<rparr>))"

text \<open>The \<^verbatim>\<open>catch\<close> and the \<^verbatim>\<open>finally\<close> block of \<^verbatim>\<open>generateNextSegment\<close>.\<close>

definition backgroundCatch :: "int \<Rightarrow> js_error \<Rightarrow> app \<Rightarrow> app" where
  "backgroundCatch idx e s = s\<lparr>console := console s @ [FailedToGenerate idx e]\<rparr>"

definition backgroundFinally :: "nat \<Rightarrow> app \<Rightarrow> app" where
  "backgroundFinally pid s =
     s\<lparr>isGeneratingRef := False, isBackgroundGenerating := False,
       procs := (procs s)[pid := Finished]\<rparr>"

section \<open>The initial generation\<close>

text \<open>\<^verbatim>\<open>handleGenerateStory\<close> up to its first \<^verbatim>\<open>await\<close>.\<close>

definition handleGenerateStory :: "RouteDetails \<Rightarrow> app \<Rightarrow> app" where
  "handleGenerateStory details s =
     (let estimate = calculateTotalSegments (durationSeconds details)
      in s\<lparr>route := Some details,
            generationError := None,
            appState := GENERATING_INITIAL_SEGMENT,
            loadingMessage := ''Crafting story arc...1 - 2 minutes'',
            requests := requests s @ [GenerateStoryOutline details estimate],
            procs := procs s @ [InitOutline details estimate]\<rparr>)"

text \<open>The message the \<^verbatim>\<open>catch\<close> block of \<^verbatim>\<open>handleGenerateStory\<close> chooses.\<close>

definition failureMessage :: "js_error \<Rightarrow> string" where
  "failureMessage e =
     (case e of
        JsError m \<Rightarrow>
          if m \<noteq> [] \<and> (str_includes m ''timed out'' \<or> str_includes m ''timeout'')
          then ''Story generation timed out. It might be that your journey is too long. Please try again.''
          else ''Failed to start story stream. Please check your locations/connection and try again.''
      | Thrown \<Rightarrow>
          ''Failed to start story stream. Please check your locations/connection and try again.'')"

definition initialCatch :: "nat \<Rightarrow> js_error \<Rightarrow> app \<Rightarrow> app" where
  "initialCatch pid e s =
     s\<lparr>console := console s @ [InitialGenerationFailed e],
       appState := PLANNING,
       generationError := Some (failureMessage e),
       procs := (procs s)[pid := Finished]\<rparr>"

definition handleReset :: "app \<Rightarrow> app" where
  "handleReset s =
     s\<lparr>appState := PLANNING, route := None, story := None, currentPlayingIndex := 0,
       generationError := None, isGeneratingRef := False, isBackgroundGenerating := False\<rparr>"

section \<open>Resuming a suspended invocation\<close>

text \<open>
  The settlement an invocation is resumed with. The remote calls are wrapped in
  \<^verbatim>\<open>withTimeout\<close>, so their signal may be the deadline; \<^verbatim>\<open>tempCtx.close()\<close> is
  awaited as it is. Each equation of \<open>resume\<close> runs the code from one \<^verbatim>\<open>await\<close> to
  the next, or to the end through \<^verbatim>\<open>catch\<close> and \<^verbatim>\<open>finally\<close>. The constructor
  \<^verbatim>\<open>new AudioContextClass()\<close> is taken to succeed; the new context is open, and it is
  closed when the promise of \<^verbatim>\<open>close()\<close> is fulfilled.
\<close>

datatype response =
    OutlineSettles "string list signal"
  | TextSettles "SegmentData signal"
  | AudioSettles "audio signal"
  | CloseSettles "unit outcome"

fun resume :: "nat \<Rightarrow> proc \<Rightarrow> response \<Rightarrow> app \<Rightarrow> app" where
  "resume pid (BgText r idx) (TextSettles sg) s =
     (case race (''Text generation timed out for segment '' @ show_int idx) sg of
        Inl e \<Rightarrow> backgroundFinally pid (backgroundCatch idx e s)
      | Inr segmentData \<Rightarrow>
          s\<lparr>contexts := contexts s @ [True],
            requests := requests s @
              [GenerateSegmentAudio (text segmentData) (length (contexts s)) (voiceName r)],
            procs := (procs s)[pid := BgAudio idx segmentData (length (contexts s))]\<rparr>)"
| "resume pid (BgAudio idx segmentData tempCtx) (AudioSettles sg) s =
     (case race (''Audio generation timed out for segment '' @ show_int idx) sg of
        Inl e \<Rightarrow> backgroundFinally pid (backgroundCatch idx e s)
      | Inr buf \<Rightarrow> s\<lparr>procs := (procs s)[pid := BgClose idx segmentData buf tempCtx]\<rparr>)"
| "resume pid (BgClose idx segmentData buf tempCtx) (CloseSettles oc) s =
     (case oc of
        Rejected e \<Rightarrow> backgroundFinally pid (backgroundCatch idx e s)
      | Fulfilled u \<Rightarrow>
          backgroundFinally pid
            (s\<lparr>contexts := (contexts s)[tempCtx := False],
               story := mergeSegment idx segmentData buf (story s),
               console := console s @ [SegmentReady idx]\<rparr>))"
| "resume pid (InitOutline details estimate) (OutlineSettles sg) s =
     (case race ''Story outline generation timed out'' sg of
        Inl e \<Rightarrow> initialCatch pid e s
      | Inr beats \<Rightarrow>
          s\<lparr>loadingMessage := ''Writing first chapter... 1 minute'',
            requests := requests s @
              [GenerateSegment details 1 estimate (beat_or beats 0 ''Begin the journey.'') []],
            procs := (procs s)[pid := InitText details estimate beats]\<rparr>)"
| "resume pid (InitText details estimate beats) (TextSettles sg) s =
     (case race ''Initial text generation timed out'' sg of
        Inl e \<Rightarrow> initialCatch pid e s
      | Inr seg1Data \<Rightarrow>
          s\<lparr>loadingMessage := ''Preparing audio stream...30 seconds'',
            contexts := contexts s @ [True],
            requests := requests s @
              [GenerateSegmentAudio (text seg1Data) (length (contexts s)) (voiceName details)],
            procs := (procs s)[pid := InitAudio details estimate beats seg1Data (length (contexts s))]\<rparr>)"
| "resume pid (InitAudio details estimate beats seg1Data tempCtx) (AudioSettles sg) s =
     (case race ''Initial audio generation timed out'' sg of
        Inl e \<Rightarrow> initialCatch pid e s
      | Inr seg1Audio \<Rightarrow>
          s\<lparr>procs := (procs s)[pid := InitClose details estimate beats seg1Data seg1Audio tempCtx]\<rparr>)"
| "resume pid (InitClose details estimate beats seg1Data seg1Audio tempCtx) (CloseSettles oc) s =
     (case oc of
        Rejected e \<Rightarrow> initialCatch pid e s
      | Fulfilled u \<Rightarrow>
          s\<lparr>contexts := (contexts s)[tempCtx := False],
            story := Some \<lparr>totalSegmentsEstimate = estimate, outline = beats,
                           segments = [withAudio seg1Data seg1Audio]\<rparr>,
            appState := READY_TO_PLAY,
            procs := (procs s)[pid := Finished]\<rparr>)"
| "resume pid p r s = s"

section \<open>Events\<close>

text \<open>
  What can happen to the component: the route planner hands over a route, the effect
  runs, a suspended invocation is resumed, the user ends the journey, the player
  reports the segment it plays.
\<close>

datatype event =
    RouteFound RouteDetails
  | Effect
  | Resume nat response
  | Reset
  | SegmentChange int

fun step :: "app \<Rightarrow> event \<Rightarrow> app" where
  "step s (RouteFound details) = handleGenerateStory details s"
| "step s Effect = bufferingEffect s"
| "step s (Resume pid r) = (if pid < length (procs s) then resume pid (procs s ! pid) r s else s)"
| "step s Reset = handleReset s"
| "step s (SegmentChange i) = s\<lparr>currentPlayingIndex := i\<rparr>"

fun run :: "app \<Rightarrow> event list \<Rightarrow> app" where
  "run s [] = s"
| "run s (e # es) = run (step s e) es"

definition exec :: "event list \<Rightarrow> app" where
  "exec evs = run initial evs"

section \<open>Which events the component can receive\<close>

text \<open>
  The player, with the button that ends the journey, is rendered when
  \<^verbatim>\<open>appState >= AppState.READY_TO_PLAY && story && route\<close>; the route planner is locked
  when \<^verbatim>\<open>appState > AppState.ROUTE_CONFIRMED\<close>.
\<close>

definition playerShown :: "app \<Rightarrow> bool" where
  "playerShown s =
     (phase_rank READY_TO_PLAY \<le> phase_rank (appState s) \<and> story s \<noteq> None \<and> route s \<noteq> None)"

definition isLocked :: "app \<Rightarrow> bool" where
  "isLocked s = (phase_rank ROUTE_CONFIRMED < phase_rank (appState s))"

text \<open>
  Modelled from the spec: \<^verbatim>\<open>generateSegment\<close> of the generation service, which is not
  among the sources, produces the segment for the index it is asked for. A response
  answers a suspended invocation when it settles the call that invocation awaits.
\<close>

fun answers :: "proc \<Rightarrow> response \<Rightarrow> bool" where
  "answers (BgText r idx) (TextSettles (Settles (Fulfilled d))) = (index d = idx)"
| "answers (BgText r idx) (TextSettles sg) = True"
| "answers (BgAudio idx d c) (AudioSettles sg) = True"
| "answers (BgClose idx d b c) (CloseSettles oc) = True"
| "answers (InitOutline details estimate) (OutlineSettles sg) = True"
| "answers (InitText details estimate beats) (TextSettles (Settles (Fulfilled d))) = (index d = 1)"
| "answers (InitText details estimate beats) (TextSettles sg) = True"
| "answers (InitAudio details estimate beats d c) (AudioSettles sg) = True"
| "answers (InitClose details estimate beats d b c) (CloseSettles oc) = True"
| "answers p r = False"

fun enabled :: "app \<Rightarrow> event \<Rightarrow> bool" where
  "enabled s (RouteFound details) = (\<not> isLocked s \<and> durationSeconds details \<le> 14400)"
| "enabled s Effect = True"
| "enabled s (Resume pid r) = (pid < length (procs s) \<and> answers (procs s ! pid) r)"
| "enabled s Reset = playerShown s"
| "enabled s (SegmentChange i) = playerShown s"

fun valid_from :: "app \<Rightarrow> event list \<Rightarrow> bool" where
  "valid_from s [] = True"
| "valid_from s (e # es) = (enabled s e \<and> valid_from (step s e) es)"

definition valid :: "event list \<Rightarrow> bool" where
  "valid evs = valid_from initial evs"

text \<open>No invocation is suspended.\<close>

definition idle :: "app \<Rightarrow> bool" where
  "idle s = list_all (\<lambda>p. p = Finished) (procs s)"

text \<open>A run in which the journey is only ended while no invocation is suspended.\<close>

fun calm_from :: "app \<Rightarrow> event list \<Rightarrow> bool" where
  "calm_from s [] = True"
| "calm_from s (e # es) =
     (enabled s e \<and> (if e = Reset then idle s else True) \<and> calm_from (step s e) es)"

definition calm :: "event list \<Rightarrow> bool" where
  "calm evs = calm_from initial evs"

text \<open>The background invocations that are suspended.\<close>

fun isBackground :: "proc \<Rightarrow> bool" where
  "isBackground (BgText r idx) = True"
| "isBackground (BgAudio idx d c) = True"
| "isBackground (BgClose idx d b c) = True"
| "isBackground p = False"

definition executing :: "app \<Rightarrow> proc list" where
  "executing s = filter isBackground (procs s)"

text \<open>
  The awaited call of a background invocation for \<open>idx\<close> fails with \<open>e\<close>: the guarded
  text or audio request rejects or runs into its deadline, or closing the context
  rejects. Likewise for the initial generation.
\<close>

fun bgFails :: "proc \<Rightarrow> response \<Rightarrow> int \<Rightarrow> js_error \<Rightarrow> bool" where
  "bgFails (BgText r i) (TextSettles sg) idx e =
     (i = idx \<and> race (''Text generation timed out for segment '' @ show_int i) sg = Inl e)"
| "bgFails (BgAudio i d c) (AudioSettles sg) idx e =
     (i = idx \<and> race (''Audio generation timed out for segment '' @ show_int i) sg = Inl e)"
| "bgFails (BgClose i d b c) (CloseSettles oc) idx e = (i = idx \<and> oc = Rejected e)"
| "bgFails p r idx e = False"

fun initFails :: "proc \<Rightarrow> response \<Rightarrow> js_error \<Rightarrow> bool" where
  "initFails (InitOutline details estimate) (OutlineSettles sg) e =
     (race ''Story outline generation timed out'' sg = Inl e)"
| "initFails (InitText details estimate beats) (TextSettles sg) e =
     (race ''Initial text generation timed out'' sg = Inl e)"
| "initFails (InitAudio details estimate beats d c) (AudioSettles sg) e =
     (race ''Initial audio generation timed out'' sg = Inl e)"
| "initFails (InitClose details estimate beats d b c) (CloseSettles oc) e = (oc = Rejected e)"
| "initFails p r e = False"

section \<open>The route planner\<close>

text \<open>
  The leg of the route the directions service resolved, or the status of a request
  that did not end with \<^verbatim>\<open>OK\<close>.
\<close>

record Leg =
  start_address :: string
  end_address :: string
  distance_text :: string
  duration_text :: string
  duration_value :: int

datatype directions = DirectionsOK Leg | DirectionsStatus string

text \<open>What the planner ends with: an error it shows, or the call of \<^verbatim>\<open>onRouteFound\<close>.\<close>

datatype planner_action = SetError string | OnRouteFound RouteDetails

definition toLowerCase :: "TravelMode \<Rightarrow> string" where
  "toLowerCase m = (case m of WALKING \<Rightarrow> ''walking'' | DRIVING \<Rightarrow> ''driving'')"

definition handleCalculate ::
  "string \<Rightarrow> string \<Rightarrow> TravelMode \<Rightarrow> string \<Rightarrow> StoryStyle \<Rightarrow> bool \<Rightarrow> directions \<Rightarrow> planner_action" where
  "handleCalculate finalStart finalEnd mode selectedVoice selectedStyle mapsLoaded result =
     (if finalStart = [] \<or> finalEnd = [] then
        SetError ''Please search for and select both a start and end location from the suggestions.''
      else if \<not> mapsLoaded then
        SetError ''Google Maps API is not loaded yet. Please refresh.''
      else
        (case result of
           DirectionsOK leg \<Rightarrow>
             if duration_value leg > 14400 then
               SetError ''Sorry, this journey is too long. Please select a route under 4 hours.''
             else
               OnRouteFound
                 \<lparr>startAddress = start_address leg, endAddress = end_address leg,
                  distance = distance_text leg, duration = duration_text leg,
                  durationSeconds = duration_value leg, travelMode = mode,
                  voiceName = selectedVoice, storyStyle = selectedStyle\<rparr>
         | DirectionsStatus status \<Rightarrow>
             if status = ''ZERO_RESULTS'' then
               SetError (''Sorry, we could not calculate '' @ toLowerCase mode
                 @ '' directions from '' @ [CHR 0x22] @ finalStart @ [CHR 0x22]
                 @ '' to '' @ [CHR 0x22] @ finalEnd @ [CHR 0x22])
             else SetError ''Could not calculate route. Please check the locations and try again.''))"

text \<open>The planner's prop \<^verbatim>\<open>onRouteFound\<close> is \<^verbatim>\<open>handleGenerateStory\<close>; its error is its own.\<close>

fun planner_step :: "planner_action \<Rightarrow> app \<Rightarrow> app" where
  "planner_step (SetError msg) s = s"
| "planner_step (OnRouteFound details) s = handleGenerateStory details s"

section \<open>Invariants of the story timeline and of the invocations\<close>




text \<open>The invocations that are suspended, whichever kind.\<close>

definition live :: "app \<Rightarrow> proc list" where
  "live s = filter (\<lambda>p. p \<noteq> Finished) (procs s)"

fun background_for :: "int \<Rightarrow> proc \<Rightarrow> bool" where
  "background_for n (BgText r idx) = (idx = n)"
| "background_for n (BgAudio idx d c) = (idx = n \<and> index d = n)"
| "background_for n (BgClose idx d b c) = (idx = n \<and> index d = n)"
| "background_for n p = False"

fun initial_stage :: "proc \<Rightarrow> bool" where
  "initial_stage (InitOutline details estimate) = True"
| "initial_stage (InitText details estimate beats) = True"
| "initial_stage (InitAudio details estimate beats d c) = (index d = 1)"
| "initial_stage (InitClose details estimate beats d b c) = (index d = 1)"
| "initial_stage p = False"

definition contiguous :: "AudioStory \<Rightarrow> bool" where
  "contiguous st = (map index (segments st) = [1..int (length (segments st))])"

definition calm_inv :: "app \<Rightarrow> bool" where
  "calm_inv s =
     (case appState s of
        READY_TO_PLAY \<Rightarrow>
          route s \<noteq> None \<and>
          (\<exists>st. story s = Some st \<and> contiguous st \<and>
             (if isGeneratingRef s
              then \<exists>p. live s = [p] \<and> background_for (int (length (segments st)) + 1) p
              else live s = []))
      | GENERATING_INITIAL_SEGMENT \<Rightarrow>
          route s \<noteq> None \<and> story s = None \<and> \<not> isGeneratingRef s
          \<and> (\<exists>p. live s = [p] \<and> initial_stage p)
      | _ \<Rightarrow> story s = None \<and> \<not> isGeneratingRef s \<and> live s = [])"

text \<open>
  The submission a suspended invocation of \<^verbatim>\<open>handleGenerateStory\<close> was called with,
  and the invocations of it that are suspended. While one is, the phase is
  \<open>GENERATING_INITIAL_SEGMENT\<close> and the route is its submission; no story exists below
  \<open>READY_TO_PLAY\<close>.
\<close>

fun attempt_of :: "proc \<Rightarrow> RouteDetails option" where
  "attempt_of (InitOutline details estimate) = Some details"
| "attempt_of (InitText details estimate beats) = Some details"
| "attempt_of (InitAudio details estimate beats d c) = Some details"
| "attempt_of (InitClose details estimate beats d b c) = Some details"
| "attempt_of p = None"

definition attempts :: "app \<Rightarrow> proc list" where
  "attempts s = filter (\<lambda>p. attempt_of p \<noteq> None) (procs s)"

definition attempt_inv :: "app \<Rightarrow> bool" where
  "attempt_inv s =
     ((appState s \<noteq> READY_TO_PLAY \<longrightarrow> story s = None)
      \<and> (attempts s = []
          \<or> (\<exists>p. attempts s = [p] \<and> appState s = GENERATING_INITIAL_SEGMENT
                   \<and> route s = attempt_of p)))"

section \<open>A journey used in the examples\<close>

definition r1 :: RouteDetails where
  "r1 = \<lparr>startAddress = ''A'', endAddress = ''B'', distance = ''1 km'', duration = ''20 mins'',
          durationSeconds = 1200, travelMode = WALKING, voiceName = ''Kore'', storyStyle = NOIR\<rparr>"

definition seg :: "int \<Rightarrow> SegmentData" where
  "seg i = \<lparr>index = i, text = ''Once''\<rparr>"

definition st1 :: AudioStory where
  "st1 = \<lparr>totalSegmentsEstimate = 10, outline = [''Leave'', ''Arrive''],
           segments = [withAudio (seg 1) 7]\<rparr>"

definition st12 :: AudioStory where
  "st12 = \<lparr>totalSegmentsEstimate = 10, outline = [''Leave'', ''Arrive''],
            segments = [withAudio (seg 1) 7, withAudio (seg 2) 8]\<rparr>"

text \<open>The initial generation succeeds: the first segment is ready.\<close>

definition first_segment_ready :: "event list" where
  "first_segment_ready =
     [RouteFound r1,
      Resume 0 (OutlineSettles (Settles (Fulfilled [''Leave'', ''Arrive'']))),
      Resume 0 (TextSettles (Settles (Fulfilled (seg 1)))),
      Resume 0 (AudioSettles (Settles (Fulfilled 7))),
      Resume 0 (CloseSettles (Fulfilled ()))]"

text \<open>The effect has launched the second segment; then that segment is ready too.\<close>

definition second_segment_ready :: "event list" where
  "second_segment_ready =
     first_segment_ready @
     [Effect,
      Resume 1 (TextSettles (Settles (Fulfilled (seg 2)))),
      Resume 1 (AudioSettles (Settles (Fulfilled 8))),
      Resume 1 (CloseSettles (Fulfilled ()))]"

text \<open>
  The user ends the journey while the second segment is being generated and starts a
  new one, whose first segment gets ready; the effect runs.
\<close>

definition restart_while_buffering :: "event list" where
  "restart_while_buffering =
     first_segment_ready @
     [Effect,
      Reset,
      RouteFound r1,
      Resume 2 (OutlineSettles (Settles (Fulfilled [''Leave'', ''Arrive'']))),
      Resume 2 (TextSettles (Settles (Fulfilled (seg 1)))),
      Resume 2 (AudioSettles (Settles (Fulfilled 7))),
      Resume 2 (CloseSettles (Fulfilled ())),
      Effect]"

text \<open>
  The same while the third segment is being generated; its invocation completes after
  the new journey's first segment is ready.
\<close>

definition late_merge :: "event list" where
  "late_merge =
     second_segment_ready @
     [Effect,
      Reset,
      RouteFound r1,
      Resume 3 (OutlineSettles (Settles (Fulfilled [''Leave'', ''Arrive'']))),
      Resume 3 (TextSettles (Settles (Fulfilled (seg 1)))),
      Resume 3 (AudioSettles (Settles (Fulfilled 7))),
      Resume 3 (CloseSettles (Fulfilled ())),
      Effect,
      Resume 2 (TextSettles (Settles (Fulfilled (seg 3)))),
      Resume 2 (AudioSettles (Settles (Fulfilled 9))),
      Resume 2 (CloseSettles (Fulfilled ()))]"

section \<open>Properties of the Timeout Guard\<close>

lemma settled_kept:
  "settled g = Some r \<Longrightarrow> settled (foldl (withTimeout_step errorMsg) g sigs) = Some r"
proof (induction sigs arbitrary: g)
  case Nil
  then show ?case by simp
next
  case (Cons sg sigs)
  have "settled (withTimeout_step errorMsg g sg) = Some r"
    using Cons.prems
    by (cases "(errorMsg, g, sg)" rule: withTimeout_step.cases)
       (simp_all add: settle_def clearTimeout_def)
  then show ?case using Cons.IH by simp
qed

lemma withTimeout_first_signal:
  "settled (withTimeout errorMsg (sg # sigs)) = Some (race errorMsg sg)"
proof -
  have "settled (withTimeout_step errorMsg withTimeout_start sg) = Some (race errorMsg sg)"
    by (cases "(errorMsg, sg)" rule: race.cases)
       (simp_all add: settle_def clearTimeout_def withTimeout_start_def)
  then show ?thesis
    unfolding withTimeout_def by (simp add: settled_kept)
qed

lemma clearCalls_bound:
  "clearCalls (foldl (withTimeout_step errorMsg) g sigs) \<le> clearCalls g + settlements sigs"
proof (induction sigs arbitrary: g)
  case Nil
  then show ?case by simp
next
  case (Cons sg sigs)
  have "clearCalls (withTimeout_step errorMsg g sg) + settlements sigs
          \<le> clearCalls g + settlements (sg # sigs)"
    by (cases "(errorMsg, g, sg)" rule: withTimeout_step.cases)
       (simp_all add: settle_def clearTimeout_def split: option.splits)
  then show ?case using Cons.IH [of "withTimeout_step errorMsg g sg"] by simp
qed

text \<open>
  C4, at the input where it fails. The wrapped operation rejects before the deadline:
  the guard rejects with the operation's reason, \<^verbatim>\<open>clearTimeout\<close> has not been
  called and the timer is still pending; when its time elapses it fires.
\<close>

theorem withTimeout_rejection_leaks_timer:
  "settled (withTimeout ''Initial audio generation timed out''
              [Settles (Rejected (JsError ''503'') :: nat outcome)]) = Some (Inl (JsError ''503''))
   \<and> timer (withTimeout ''Initial audio generation timed out''
              [Settles (Rejected (JsError ''503'') :: nat outcome)]) = TimerPending
   \<and> clearCalls (withTimeout ''Initial audio generation timed out''
              [Settles (Rejected (JsError ''503'') :: nat outcome)]) = 0
   \<and> timer (withTimeout ''Initial audio generation timed out''
              [Settles (Rejected (JsError ''503'') :: nat outcome), Deadline]) = TimerFired"
  by (simp add: withTimeout_def withTimeout_start_def settle_def)


section \<open>The trigger evaluation\<close>

lemmas handler_defs =
  handleGenerateStory_def initialCatch_def handleReset_def bufferingEffect_def
  generateNextSegment_def backgroundCatch_def backgroundFinally_def mergeSegment_def Let_def

lemmas guard_defs = valid_def calm_def isLocked_def playerShown_def idle_def

lemmas example_defs =
  exec_def initial_def first_segment_ready_def r1_def seg_def st1_def withAudio_def
  calculateTotalSegments_def

text \<open>
  C1. In a state with a story, a route and a phase of at least \<open>READY_TO_PLAY\<close>, the
  effect launches a background invocation for the index \<open>segments.length + 1\<close>, taking
  the lock, exactly when \<open>segments.length < currentPlayingIndex + 3\<close>,
  \<open>segments.length < totalSegmentsEstimate\<close> and the lock is free; otherwise it
  changes nothing, in particular when \<open>segments.length\<close> equals the estimate, whatever
  the playback position. Below \<open>READY_TO_PLAY\<close> it changes nothing.
\<close>

theorem trigger_evaluation:
  "(story s = Some st \<and> route s = Some r \<and> phase_rank READY_TO_PLAY \<le> phase_rank (appState s) \<longrightarrow>
      ((procs (bufferingEffect s) = procs s @ [BgText r (int (length (segments st)) + 1)])
         = (int (length (segments st)) < currentPlayingIndex s + 3
            \<and> int (length (segments st)) < totalSegmentsEstimate st
            \<and> \<not> isGeneratingRef s))
      \<and> (procs (bufferingEffect s) = procs s @ [BgText r (int (length (segments st)) + 1)]
           \<longrightarrow> isGeneratingRef (bufferingEffect s))
      \<and> (procs (bufferingEffect s) \<noteq> procs s @ [BgText r (int (length (segments st)) + 1)]
           \<longrightarrow> bufferingEffect s = s)
      \<and> (int (length (segments st)) = totalSegmentsEstimate st \<longrightarrow> bufferingEffect s = s))
   \<and> (phase_rank (appState s) < phase_rank READY_TO_PLAY \<longrightarrow> bufferingEffect s = s)"
  by (auto simp: bufferingEffect_def generateNextSegment_def Let_def split: option.splits)

theorem trigger_evaluation_witness:
  "procs (bufferingEffect (initial\<lparr>appState := READY_TO_PLAY, route := Some r1, story := Some st1\<rparr>))
     = [BgText r1 2]
   \<and> isGeneratingRef
       (bufferingEffect (initial\<lparr>appState := READY_TO_PLAY, route := Some r1, story := Some st1\<rparr>))
   \<and> bufferingEffect
        (initial\<lparr>appState := READY_TO_PLAY, route := Some r1,
           story := Some (st1\<lparr>totalSegmentsEstimate := 1\<rparr>), currentPlayingIndex := 100\<rparr>)
      = initial\<lparr>appState := READY_TO_PLAY, route := Some r1,
           story := Some (st1\<lparr>totalSegmentsEstimate := 1\<rparr>), currentPlayingIndex := 100\<rparr>
   \<and> bufferingEffect initial = initial"
proof -
  let ?a = "initial\<lparr>appState := READY_TO_PLAY, route := Some r1, story := Some st1\<rparr>"
  let ?b = "initial\<lparr>appState := READY_TO_PLAY, route := Some r1,
              story := Some (st1\<lparr>totalSegmentsEstimate := 1\<rparr>), currentPlayingIndex := 100\<rparr>"
  have a: "story ?a = Some st1 \<and> route ?a = Some r1
      \<and> phase_rank READY_TO_PLAY \<le> phase_rank (appState ?a)"
    by simp
  have a': "int (length (segments st1)) < currentPlayingIndex ?a + 3
      \<and> int (length (segments st1)) < totalSegmentsEstimate st1 \<and> \<not> isGeneratingRef ?a"
    by (simp add: initial_def st1_def)
  have ps: "procs ?a @ [BgText r1 (int (length (segments st1)) + 1)] = [BgText r1 2]"
    by (simp add: initial_def st1_def)
  have b: "story ?b = Some (st1\<lparr>totalSegmentsEstimate := 1\<rparr>) \<and> route ?b = Some r1
      \<and> phase_rank READY_TO_PLAY \<le> phase_rank (appState ?b)"
    by simp
  have b': "int (length (segments (st1\<lparr>totalSegmentsEstimate := 1\<rparr>)))
      = totalSegmentsEstimate (st1\<lparr>totalSegmentsEstimate := 1\<rparr>)"
    by (simp add: st1_def)
  have c: "phase_rank (appState initial) < phase_rank READY_TO_PLAY"
    by (simp add: initial_def)
  have "procs (bufferingEffect ?a) = procs ?a @ [BgText r1 (int (length (segments st1)) + 1)]
      \<and> isGeneratingRef (bufferingEffect ?a)"
    using trigger_evaluation [of ?a st1 r1] a a' by blast
  moreover have "bufferingEffect ?b = ?b"
    using trigger_evaluation [of ?b "st1\<lparr>totalSegmentsEstimate := 1\<rparr>" r1] b b' by blast
  moreover have "bufferingEffect initial = initial"
    using trigger_evaluation [of initial] c by blast
  ultimately show ?thesis
    using ps by simp
qed

section \<open>Failures of a background invocation\<close>

lemma step_failed_background:
  assumes "bgFails p r idx e" and "pid < length (procs s)" and "procs s ! pid = p"
  shows "step s (Resume pid r) = backgroundFinally pid (backgroundCatch idx e s)"
  using assms by (cases p; cases r) auto

text \<open>
  C6. When the call a background invocation awaits fails, the story is as before, the
  lock is free, neither error shown to the user nor the phase changes, the failure is
  written to the console, no request is issued and no invocation is started; and when
  the conditions of the trigger still hold, the next evaluation of the effect launches
  an invocation for \<open>segments.length + 1\<close> again.
\<close>

theorem background_failure:
  assumes "bgFails p r idx e" and "pid < length (procs s)" and "procs s ! pid = p"
  shows "story (step s (Resume pid r)) = story s
    \<and> \<not> isGeneratingRef (step s (Resume pid r))
    \<and> generationError (step s (Resume pid r)) = generationError s
    \<and> scriptError (step s (Resume pid r)) = scriptError s
    \<and> appState (step s (Resume pid r)) = appState s
    \<and> console (step s (Resume pid r)) = console s @ [FailedToGenerate idx e]
    \<and> requests (step s (Resume pid r)) = requests s
    \<and> procs (step s (Resume pid r)) = (procs s)[pid := Finished]
    \<and> (\<forall>st rt. story s = Some st \<and> route s = Some rt
          \<and> phase_rank READY_TO_PLAY \<le> phase_rank (appState s)
          \<and> int (length (segments st)) < currentPlayingIndex s + 3
          \<and> int (length (segments st)) < totalSegmentsEstimate st
        \<longrightarrow> procs (bufferingEffect (step s (Resume pid r)))
              = (procs s)[pid := Finished] @ [BgText rt (int (length (segments st)) + 1)])"
  unfolding step_failed_background [OF assms]
  by (simp add: handler_defs)

theorem background_failure_witness:
  "story (step (exec (first_segment_ready @ [Effect]))
       (Resume 1 (TextSettles (Settles (Rejected (JsError ''503'')))))) = Some st1
   \<and> console (step (exec (first_segment_ready @ [Effect]))
       (Resume 1 (TextSettles (Settles (Rejected (JsError ''503''))))))
      = [StartingGeneration 2, FailedToGenerate 2 (JsError ''503'')]
   \<and> procs (bufferingEffect (step (exec (first_segment_ready @ [Effect]))
       (Resume 1 (TextSettles (Settles (Rejected (JsError ''503'')))))))
      = [Finished, Finished, BgText r1 2]"
proof -
  have s: "procs (exec (first_segment_ready @ [Effect])) = [Finished, BgText r1 2]
      \<and> story (exec (first_segment_ready @ [Effect])) = Some st1
      \<and> route (exec (first_segment_ready @ [Effect])) = Some r1
      \<and> appState (exec (first_segment_ready @ [Effect])) = READY_TO_PLAY
      \<and> currentPlayingIndex (exec (first_segment_ready @ [Effect])) = 0
      \<and> console (exec (first_segment_ready @ [Effect])) = [StartingGeneration 2]"
    by (simp add: example_defs handler_defs)
  have f: "bgFails (BgText r1 2) (TextSettles (Settles (Rejected (JsError ''503'')))) 2
             (JsError ''503'')"
    by simp
  show ?thesis
    using background_failure [OF f, of 1 "exec (first_segment_ready @ [Effect])"] s
    by (simp add: st1_def)
qed

section \<open>The initial generation\<close>

lemma step_failed_initial:
  assumes "initFails p r e" and "pid < length (procs s)" and "procs s ! pid = p"
  shows "step s (Resume pid r) = initialCatch pid e s"
  using assms by (cases p; cases r) auto

lemma starts_with_iff: "starts_with s t = (\<exists>b. s = t @ b)"
  by (induction s t rule: starts_with.induct) auto

lemma str_includes_iff: "str_includes s t = (\<exists>a b. s = a @ t @ b)"
proof (induction s)
  case Nil
  then show ?case by simp
next
  case (Cons x xs)
  have "(\<exists>a b. x # xs = a @ t @ b) = ((\<exists>b. x # xs = t @ b) \<or> (\<exists>a b. xs = a @ t @ b))"
  proof
    assume "\<exists>a b. x # xs = a @ t @ b"
    then obtain a b where ab: "x # xs = a @ t @ b" by blast
    show "(\<exists>b. x # xs = t @ b) \<or> (\<exists>a b. xs = a @ t @ b)"
    proof (cases a)
      case Nil
      then show ?thesis using ab by auto
    next
      case (Cons y ys)
      then have "xs = ys @ t @ b" using ab by simp
      then show ?thesis by blast
    qed
  next
    assume "(\<exists>b. x # xs = t @ b) \<or> (\<exists>a b. xs = a @ t @ b)"
    then show "\<exists>a b. x # xs = a @ t @ b"
    proof
      assume "\<exists>b. x # xs = t @ b"
      then obtain b where "x # xs = [] @ t @ b" by auto
      then show ?thesis by blast
    next
      assume "\<exists>a b. xs = a @ t @ b"
      then obtain a b where "x # xs = (x # a) @ t @ b" by auto
      then show ?thesis by blast
    qed
  qed
  then show ?case using Cons.IH by (simp add: starts_with_iff)
qed

lemma failureMessage_too_long:
  "(failureMessage e
      = ''Story generation timed out. It might be that your journey is too long. Please try again.'')
   = (\<exists>m. e = JsError m
        \<and> ((\<exists>a b. m = a @ ''timed out'' @ b) \<or> (\<exists>a b. m = a @ ''timeout'' @ b)))"
proof (cases e)
  case (JsError m)
  have ne: "(\<exists>a b. m = a @ ''timed out'' @ b) \<or> (\<exists>a b. m = a @ ''timeout'' @ b) \<Longrightarrow> m \<noteq> []"
    by auto
  show ?thesis
    using ne by (auto simp: JsError failureMessage_def str_includes_iff)
next
  case Thrown
  then show ?thesis by (simp add: failureMessage_def)
qed

lemma failureMessage_generic:
  "failureMessage e
      \<noteq> ''Story generation timed out. It might be that your journey is too long. Please try again.''
   \<Longrightarrow> failureMessage e
      = ''Failed to start story stream. Please check your locations/connection and try again.''"
  by (cases e) (auto simp: failureMessage_def split: if_splits)

text \<open>
  C7. When a call the initial generation awaits fails, the phase is \<open>PLANNING\<close> again
  and the error shown to the user is the message chosen by the failure: the message
  that the journey might be too long exactly when the failure is an error whose message
  contains \<^verbatim>\<open>timed out\<close> or \<^verbatim>\<open>timeout\<close>, as for each of the three deadlines, and the
  general message otherwise. When closing the context succeeds, the last step of a
  successful generation, the story holds the estimate, the outline and the first
  segment alone, and the phase is \<open>READY_TO_PLAY\<close>.
\<close>

theorem initial_generation_outcome:
  "(initFails p r e \<and> pid < length (procs s) \<and> procs s ! pid = p \<longrightarrow>
       appState (step s (Resume pid r)) = PLANNING
       \<and> generationError (step s (Resume pid r)) = Some (failureMessage e))
   \<and> (failureMessage e
        = ''Story generation timed out. It might be that your journey is too long. Please try again.'')
      = (\<exists>m. e = JsError m
           \<and> ((\<exists>a b. m = a @ ''timed out'' @ b) \<or> (\<exists>a b. m = a @ ''timeout'' @ b)))
   \<and> (failureMessage e
        \<noteq> ''Story generation timed out. It might be that your journey is too long. Please try again.''
      \<longrightarrow> failureMessage e
        = ''Failed to start story stream. Please check your locations/connection and try again.'')
   \<and> failureMessage (JsError ''Story outline generation timed out'')
        = ''Story generation timed out. It might be that your journey is too long. Please try again.''
   \<and> failureMessage (JsError ''Initial text generation timed out'')
        = ''Story generation timed out. It might be that your journey is too long. Please try again.''
   \<and> failureMessage (JsError ''Initial audio generation timed out'')
        = ''Story generation timed out. It might be that your journey is too long. Please try again.''
   \<and> initFails (InitOutline details estimate) (OutlineSettles Deadline)
        (JsError ''Story outline generation timed out'')
   \<and> initFails (InitText details estimate beats) (TextSettles Deadline)
        (JsError ''Initial text generation timed out'')
   \<and> initFails (InitAudio details estimate beats seg1Data tempCtx) (AudioSettles Deadline)
        (JsError ''Initial audio generation timed out'')
   \<and> (pid < length (procs s) \<and> procs s ! pid = InitClose details estimate beats seg1Data seg1Audio tempCtx \<longrightarrow>
        story (step s (Resume pid (CloseSettles (Fulfilled ()))))
          = Some \<lparr>totalSegmentsEstimate = estimate, outline = beats,
                  segments = [withAudio seg1Data seg1Audio]\<rparr>
        \<and> appState (step s (Resume pid (CloseSettles (Fulfilled ())))) = READY_TO_PLAY)"
proof -
  have fail: "initFails p r e \<and> pid < length (procs s) \<and> procs s ! pid = p \<longrightarrow>
       appState (step s (Resume pid r)) = PLANNING
       \<and> generationError (step s (Resume pid r)) = Some (failureMessage e)"
    using step_failed_initial [of p r e pid s] by (simp add: initialCatch_def)
  have m1: "failureMessage (JsError ''Story outline generation timed out'')
        = ''Story generation timed out. It might be that your journey is too long. Please try again.''"
    by (simp add: failureMessage_def)
  have m2: "failureMessage (JsError ''Initial text generation timed out'')
        = ''Story generation timed out. It might be that your journey is too long. Please try again.''"
    by (simp add: failureMessage_def)
  have m3: "failureMessage (JsError ''Initial audio generation timed out'')
        = ''Story generation timed out. It might be that your journey is too long. Please try again.''"
    by (simp add: failureMessage_def)
  have ok: "pid < length (procs s) \<and> procs s ! pid = InitClose details estimate beats seg1Data seg1Audio tempCtx \<longrightarrow>
        story (step s (Resume pid (CloseSettles (Fulfilled ()))))
          = Some \<lparr>totalSegmentsEstimate = estimate, outline = beats,
                  segments = [withAudio seg1Data seg1Audio]\<rparr>
        \<and> appState (step s (Resume pid (CloseSettles (Fulfilled ())))) = READY_TO_PLAY"
    by simp
  have d: "initFails (InitOutline details estimate) (OutlineSettles Deadline)
        (JsError ''Story outline generation timed out'')
   \<and> initFails (InitText details estimate beats) (TextSettles Deadline)
        (JsError ''Initial text generation timed out'')
   \<and> initFails (InitAudio details estimate beats seg1Data tempCtx) (AudioSettles Deadline)
        (JsError ''Initial audio generation timed out'')"
    by simp
  show ?thesis
    using fail failureMessage_too_long [of e] failureMessage_generic [of e] m1 m2 m3 d ok
    by blast
qed

theorem initial_generation_outcome_witness:
  "appState (exec [RouteFound r1, Resume 0 (OutlineSettles Deadline)]) = PLANNING
   \<and> generationError (exec [RouteFound r1, Resume 0 (OutlineSettles Deadline)])
      = Some ''Story generation timed out. It might be that your journey is too long. Please try again.''
   \<and> generationError (exec [RouteFound r1, Resume 0 (OutlineSettles (Settles (Rejected (JsError ''503''))))])
      = Some ''Failed to start story stream. Please check your locations/connection and try again.''
   \<and> story (exec first_segment_ready) = Some st1
   \<and> appState (exec first_segment_ready) = READY_TO_PLAY"
proof -
  let ?s = "exec [RouteFound r1]"
  let ?t = "exec (butlast first_segment_ready)"
  have a: "0 < length (procs ?s) \<and> procs ?s ! 0 = InitOutline r1 10"
    by (simp add: example_defs handler_defs)
  have b: "0 < length (procs ?t)
      \<and> procs ?t ! 0 = InitClose r1 10 [''Leave'', ''Arrive''] (seg 1) 7 0"
    by (simp add: example_defs handler_defs)
  have c: "exec [RouteFound r1, Resume 0 (OutlineSettles Deadline)]
             = step ?s (Resume 0 (OutlineSettles Deadline))"
    by (simp add: exec_def)
  have c': "exec [RouteFound r1, Resume 0 (OutlineSettles (Settles (Rejected (JsError ''503''))))]
             = step ?s (Resume 0 (OutlineSettles (Settles (Rejected (JsError ''503'')))))"
    by (simp add: exec_def)
  have d: "exec first_segment_ready = step ?t (Resume 0 (CloseSettles (Fulfilled ())))"
    by (simp add: exec_def first_segment_ready_def)
  have f1: "initFails (InitOutline r1 10) (OutlineSettles Deadline)
              (JsError ''Story outline generation timed out'')"
    by simp
  have f2: "initFails (InitOutline r1 10) (OutlineSettles (Settles (Rejected (JsError ''503''))))
              (JsError ''503'')"
    by simp
  have n: "\<not> (\<exists>m. JsError ''503'' = JsError m
           \<and> ((\<exists>a b. m = a @ ''timed out'' @ b) \<or> (\<exists>a b. m = a @ ''timeout'' @ b)))"
    using str_includes_iff [of "''503''" "''timed out''"] str_includes_iff [of "''503''" "''timeout''"]
    by simp
  have st: "Some \<lparr>totalSegmentsEstimate = 10, outline = [''Leave'', ''Arrive''],
                  segments = [withAudio (seg 1) 7]\<rparr> = Some st1"
    by (simp add: st1_def)
  have "appState (step ?s (Resume 0 (OutlineSettles Deadline))) = PLANNING
      \<and> generationError (step ?s (Resume 0 (OutlineSettles Deadline)))
        = Some ''Story generation timed out. It might be that your journey is too long. Please try again.''"
    using initial_generation_outcome
            [where p = "InitOutline r1 10" and r = "OutlineSettles Deadline"
               and e = "JsError ''Story outline generation timed out''" and pid = 0 and s = ?s]
          a f1
    by simp
  moreover have "generationError (step ?s (Resume 0 (OutlineSettles (Settles (Rejected (JsError ''503''))))))
        = Some ''Failed to start story stream. Please check your locations/connection and try again.''"
    using initial_generation_outcome
            [where p = "InitOutline r1 10"
               and r = "OutlineSettles (Settles (Rejected (JsError ''503'')))"
               and e = "JsError ''503''" and pid = 0 and s = ?s]
          a f2 n
    by metis
  moreover have "story (step ?t (Resume 0 (CloseSettles (Fulfilled ())))) = Some st1
      \<and> appState (step ?t (Resume 0 (CloseSettles (Fulfilled ())))) = READY_TO_PLAY"
    using initial_generation_outcome
            [where pid = 0 and s = ?t and details = r1 and estimate = 10
               and beats = "[''Leave'', ''Arrive'']" and seg1Data = "seg 1" and seg1Audio = 7
               and tempCtx = 0]
          b st
    by metis
  ultimately show ?thesis
    unfolding c c' d by blast
qed

text \<open>C8, as stated: after a failed initial generation the route is still the one submitted.\<close>

theorem failed_generation_keeps_route:
  "route (exec [RouteFound r1, Resume 0 (OutlineSettles Deadline)]) = Some r1
   \<and> appState (exec [RouteFound r1, Resume 0 (OutlineSettles Deadline)]) = PLANNING"
  by (simp add: exec_def initial_def handler_defs)

lemma filter_one_nth:
  assumes "filter P ps = [p]" and "pid < length ps" and "P (ps ! pid)"
  shows "ps ! pid = p"
proof -
  have "ps ! pid \<in> set (filter P ps)"
    using assms(2,3) by simp
  then have "ps ! pid \<in> set [p]"
    by (simp only: assms(1))
  then show ?thesis by simp
qed

lemma filter_none_nth:
  "filter P ps = [] \<Longrightarrow> pid < length ps \<Longrightarrow> \<not> P (ps ! pid)"
  by (auto simp: filter_empty_conv)

lemma filter_update_other:
  "pid < length ps \<Longrightarrow> \<not> P (ps ! pid) \<Longrightarrow> \<not> P q \<Longrightarrow> filter P (ps[pid := q]) = filter P ps"
proof (induction ps arbitrary: pid)
  case Nil
  then show ?case by simp
next
  case (Cons x xs)
  then show ?case by (cases pid) auto
qed

lemma filter_one_update:
  "filter P ps = [p] \<Longrightarrow> pid < length ps \<Longrightarrow> P (ps ! pid)
     \<Longrightarrow> filter P (ps[pid := q]) = (if P q then [q] else [])"
proof (induction ps arbitrary: pid)
  case Nil
  then show ?case by simp
next
  case (Cons x xs)
  show ?case
  proof (cases pid)
    case 0
    then show ?thesis using Cons.prems by (auto split: if_splits)
  next
    case (Suc k)
    have k: "k < length xs" "P (xs ! k)" using Cons.prems Suc by simp_all
    then have "filter P xs \<noteq> []"
      by (auto simp: filter_empty_conv)
    then have x: "\<not> P x" using Cons.prems(1) by (auto split: if_splits)
    then show ?thesis using Cons.IH [of k] Cons.prems k Suc by simp
  qed
qed


lemma merge_none: "mergeSegment idx d b None = None"
  by (simp add: mergeSegment_def)

lemma resume_attempt_inv:
  assumes "attempt_inv s" and "pid < length (procs s)"
  shows "attempt_inv (resume pid (procs s ! pid) r s)"
proof (cases "attempt_of (procs s ! pid)")
  case None
  have keep: "attempt_of q = None \<Longrightarrow>
      filter (\<lambda>p. attempt_of p \<noteq> None) ((procs s)[pid := q])
        = filter (\<lambda>p. attempt_of p \<noteq> None) (procs s)" for q
    using filter_update_other [of pid "procs s" "\<lambda>p. attempt_of p \<noteq> None" q] None assms(2)
    by simp
  have st: "appState s \<noteq> READY_TO_PLAY \<Longrightarrow> story s = None"
    using assms(1) by (simp add: attempt_inv_def)
  have failed: "attempt_inv (backgroundFinally pid (backgroundCatch idx e s))" for idx e
    using assms(1) keep [of Finished]
    by (simp add: attempt_inv_def attempts_def backgroundFinally_def backgroundCatch_def)
  show ?thesis
  proof (cases "procs s ! pid")
    case Finished
    then show ?thesis using assms(1) by simp
  next
    case (BgText rt idx)
    then show ?thesis
      using assms(1) failed keep
      by (cases r; cases "race (''Text generation timed out for segment '' @ show_int idx) (case r of TextSettles sg \<Rightarrow> sg)")
         (auto simp: attempt_inv_def attempts_def)
  next
    case (BgAudio idx d c)
    then show ?thesis
      using assms(1) failed keep
      by (cases r; cases "race (''Audio generation timed out for segment '' @ show_int idx) (case r of AudioSettles sg \<Rightarrow> sg)")
         (auto simp: attempt_inv_def attempts_def)
  next
    case (BgClose idx d b c)
    have "attempt_inv (backgroundFinally pid
            (s\<lparr>contexts := (contexts s)[c := False],
               story := mergeSegment idx d b (story s),
               console := console s @ [SegmentReady idx]\<rparr>))"
      using assms(1) keep [of Finished] st
      by (auto simp: attempt_inv_def attempts_def backgroundFinally_def merge_none)
    then show ?thesis
      using assms(1) failed BgClose
      by (cases r; cases "case r of CloseSettles oc \<Rightarrow> oc") auto
  qed (use None in simp_all)
next
  case (Some details)
  then have P: "attempt_of (procs s ! pid) \<noteq> None" by simp
  then have "attempts s \<noteq> []"
    using filter_none_nth [of "\<lambda>p. attempt_of p \<noteq> None" "procs s" pid] assms(2)
    by (auto simp: attempts_def)
  then obtain p where p: "attempts s = [p]" "appState s = GENERATING_INITIAL_SEGMENT"
      "route s = attempt_of p" and st: "story s = None"
    using assms(1) by (auto simp: attempt_inv_def)
  have eq: "procs s ! pid = p"
    using filter_one_nth [of "\<lambda>p. attempt_of p \<noteq> None" "procs s" p pid] p(1) P assms(2)
    by (simp add: attempts_def)
  have upd: "filter (\<lambda>p. attempt_of p \<noteq> None) ((procs s)[pid := q])
        = (if attempt_of q \<noteq> None then [q] else [])" for q
    using filter_one_update [of "\<lambda>p. attempt_of p \<noteq> None" "procs s" p pid q] p(1) P assms(2)
    by (simp add: attempts_def)
  have failed: "attempt_inv (initialCatch pid e s)" for e
    using st upd [of Finished] by (simp add: attempt_inv_def attempts_def initialCatch_def)
  show ?thesis
  proof (cases "procs s ! pid")
    case (InitOutline details estimate)
    then show ?thesis
      using failed upd st p eq
      by (cases r; cases "race ''Story outline generation timed out'' (case r of OutlineSettles sg \<Rightarrow> sg)")
         (auto simp: attempt_inv_def attempts_def)
  next
    case (InitText details estimate beats)
    then show ?thesis
      using failed upd st p eq
      by (cases r; cases "race ''Initial text generation timed out'' (case r of TextSettles sg \<Rightarrow> sg)")
         (auto simp: attempt_inv_def attempts_def)
  next
    case (InitAudio details estimate beats d c)
    then show ?thesis
      using failed upd st p eq
      by (cases r; cases "race ''Initial audio generation timed out'' (case r of AudioSettles sg \<Rightarrow> sg)")
         (auto simp: attempt_inv_def attempts_def)
  next
    case (InitClose details estimate beats d b c)
    then show ?thesis
      using failed upd st p eq
      by (cases r; cases "case r of CloseSettles oc \<Rightarrow> oc")
         (auto simp: attempt_inv_def attempts_def)
  qed (use Some in simp_all)
qed

lemma step_attempt_inv:
  assumes "attempt_inv s" and "enabled s e"
  shows "attempt_inv (step s e)"
proof (cases e)
  case (RouteFound details)
  have "appState s \<noteq> GENERATING_INITIAL_SEGMENT"
    using assms(2) RouteFound by (auto simp: isLocked_def)
  then have "attempts s = []" "story s = None"
    using assms RouteFound by (auto simp: attempt_inv_def isLocked_def)
  then show ?thesis
    using RouteFound by (simp add: attempt_inv_def attempts_def handleGenerateStory_def Let_def)
next
  case Effect
  show ?thesis
  proof (cases "bufferingEffect s = s")
    case True
    then show ?thesis using assms(1) Effect by simp
  next
    case False
    then show ?thesis
      using assms(1) Effect
      by (auto simp: attempt_inv_def attempts_def bufferingEffect_def generateNextSegment_def Let_def
               split: option.splits if_splits)
  qed
next
  case (Resume pid r)
  then show ?thesis using assms resume_attempt_inv by simp
next
  case Reset
  then have "appState s = READY_TO_PLAY"
    using assms(2) by (cases "appState s") (simp_all add: playerShown_def)
  then have "attempts s = []"
    using assms(1) by (auto simp: attempt_inv_def)
  then show ?thesis
    using Reset by (simp add: attempt_inv_def attempts_def handleReset_def)
next
  case (SegmentChange i)
  have "attempts (s\<lparr>currentPlayingIndex := i\<rparr>) = attempts s"
    by (simp add: attempts_def)
  then show ?thesis
    using assms(1) SegmentChange by (auto simp: attempt_inv_def)
qed

lemma run_attempt_inv:
  "attempt_inv s \<Longrightarrow> valid_from s evs \<Longrightarrow> attempt_inv (run s evs)"
  by (induction evs arbitrary: s) (simp_all add: step_attempt_inv)

lemma initial_attempt_inv: "attempt_inv initial"
  by (simp add: attempt_inv_def attempts_def initial_def)

lemma valid_attempt_inv: "valid evs \<Longrightarrow> attempt_inv (exec evs)"
  using run_attempt_inv [OF initial_attempt_inv, of evs] by (simp add: valid_def exec_def)

lemma initFails_attempt: "initFails p r e \<Longrightarrow> attempt_of p \<noteq> None"
  by (cases p) simp_all

lemma resume_procs:
  "\<exists>q. (procs (resume pid p r s) = procs s \<or> procs (resume pid p r s) = (procs s)[pid := q])
       \<and> (attempt_of q = None \<or> attempt_of q = attempt_of p)"
proof (cases p)
  case Finished
  then show ?thesis by (auto intro: exI [of _ Finished])
next
  case (BgText rt idx)
  then show ?thesis
    by (cases r; cases "race (''Text generation timed out for segment '' @ show_int idx) (case r of TextSettles sg \<Rightarrow> sg)")
       (auto simp: backgroundFinally_def backgroundCatch_def intro: exI [of _ Finished])
next
  case (BgAudio idx d c)
  then show ?thesis
    by (cases r; cases "race (''Audio generation timed out for segment '' @ show_int idx) (case r of AudioSettles sg \<Rightarrow> sg)")
       (auto simp: backgroundFinally_def backgroundCatch_def intro: exI [of _ Finished])
next
  case (BgClose idx d b c)
  then show ?thesis
    by (cases r; cases "case r of CloseSettles oc \<Rightarrow> oc")
       (auto simp: backgroundFinally_def backgroundCatch_def intro: exI [of _ Finished])
next
  case (InitOutline details estimate)
  then show ?thesis
    by (cases r; cases "race ''Story outline generation timed out'' (case r of OutlineSettles sg \<Rightarrow> sg)")
       (auto simp: initialCatch_def intro: exI [of _ Finished])
next
  case (InitText details estimate beats)
  then show ?thesis
    by (cases r; cases "race ''Initial text generation timed out'' (case r of TextSettles sg \<Rightarrow> sg)")
       (auto simp: initialCatch_def intro: exI [of _ Finished])
next
  case (InitAudio details estimate beats d c)
  then show ?thesis
    by (cases r; cases "race ''Initial audio generation timed out'' (case r of AudioSettles sg \<Rightarrow> sg)")
       (auto simp: initialCatch_def intro: exI [of _ Finished])
next
  case (InitClose details estimate beats d b c)
  then show ?thesis
    by (cases r; cases "case r of CloseSettles oc \<Rightarrow> oc")
       (auto simp: initialCatch_def intro: exI [of _ Finished])
qed

lemma attempt_kept:
  assumes "pid < length (procs s)"
  shows "attempt_of (procs (step s ev) ! pid) = None
         \<or> attempt_of (procs (step s ev) ! pid) = attempt_of (procs s ! pid)"
proof (cases ev)
  case (RouteFound details)
  then show ?thesis
    using assms by (simp add: handleGenerateStory_def Let_def nth_append)
next
  case Effect
  then show ?thesis
    using assms
    by (auto simp: bufferingEffect_def generateNextSegment_def Let_def nth_append
             split: option.splits)
next
  case (Resume k r)
  show ?thesis
  proof (cases "k < length (procs s)")
    case True
    obtain q where q: "procs (resume k (procs s ! k) r s) = procs s
          \<or> procs (resume k (procs s ! k) r s) = (procs s)[k := q]"
        "attempt_of q = None \<or> attempt_of q = attempt_of (procs s ! k)"
      using resume_procs [of k "procs s ! k" r s] by blast
    then show ?thesis
      using Resume True assms by (cases "k = pid") auto
  next
    case False
    then show ?thesis using Resume by simp
  qed
next
  case Reset
  then show ?thesis by (simp add: handleReset_def)
next
  case (SegmentChange i)
  then show ?thesis by simp
qed


text \<open>
  C8, amended. In every run of events the component can receive, after a failed
  initial generation the phase is \<open>PLANNING\<close>, no story exists, and the failed
  invocation is gone with the estimate, outline and segment it held; but the route is
  still the submission that invocation was called with. A submission sets the route
  and starts its invocation, and no step changes the submission a suspended invocation
  holds.
\<close>

theorem failed_generation_frame:
  "(valid evs \<and> pid < length (procs (exec evs)) \<and> procs (exec evs) ! pid = p
      \<and> initFails p r e \<longrightarrow>
      appState (step (exec evs) (Resume pid r)) = PLANNING
      \<and> story (step (exec evs) (Resume pid r)) = None
      \<and> procs (step (exec evs) (Resume pid r)) ! pid = Finished
      \<and> attempts (step (exec evs) (Resume pid r)) = []
      \<and> attempt_of p \<noteq> None
      \<and> route (step (exec evs) (Resume pid r)) = attempt_of p)
   \<and> route (handleGenerateStory details s) = Some details
   \<and> procs (handleGenerateStory details s)
      = procs s @ [InitOutline details (calculateTotalSegments (durationSeconds details))]
   \<and> (k < length (procs s) \<longrightarrow>
        attempt_of (procs (step s ev) ! k) = None
        \<or> attempt_of (procs (step s ev) ! k) = attempt_of (procs s ! k))"
proof -
  have main: "appState (step (exec evs) (Resume pid r)) = PLANNING
      \<and> story (step (exec evs) (Resume pid r)) = None
      \<and> procs (step (exec evs) (Resume pid r)) ! pid = Finished
      \<and> attempts (step (exec evs) (Resume pid r)) = []
      \<and> attempt_of p \<noteq> None
      \<and> route (step (exec evs) (Resume pid r)) = attempt_of p"
    if v: "valid evs" and l: "pid < length (procs (exec evs))"
      and p: "procs (exec evs) ! pid = p" and f: "initFails p r e"
  proof -
    let ?s = "exec evs"
    have inv: "attempt_inv ?s" using v by (rule valid_attempt_inv)
    have P: "attempt_of p \<noteq> None" using f by (rule initFails_attempt)
    then have "attempts ?s \<noteq> []"
      using filter_none_nth [of "\<lambda>p. attempt_of p \<noteq> None" "procs ?s" pid] l p
      by (auto simp: attempts_def)
    then obtain q where q: "attempts ?s = [q]" "route ?s = attempt_of q" and st: "story ?s = None"
      using inv by (auto simp: attempt_inv_def)
    have eq: "q = p"
      using filter_one_nth [of "\<lambda>p. attempt_of p \<noteq> None" "procs ?s" q pid] q(1) P l p
      by (simp add: attempts_def)
    have upd: "filter (\<lambda>p. attempt_of p \<noteq> None) ((procs ?s)[pid := Finished]) = []"
      using filter_one_update [of "\<lambda>p. attempt_of p \<noteq> None" "procs ?s" q pid Finished] q(1) P l p
      by (simp add: attempts_def)
    show ?thesis
      unfolding step_failed_initial [OF f l p]
      using P q(2) st eq upd l by (simp add: initialCatch_def attempts_def)
  qed
  have sub: "route (handleGenerateStory details s) = Some details
      \<and> procs (handleGenerateStory details s)
        = procs s @ [InitOutline details (calculateTotalSegments (durationSeconds details))]"
    by (simp add: handleGenerateStory_def Let_def)
  show ?thesis
    using main sub attempt_kept [of k s ev] by blast
qed

theorem failed_generation_frame_witness:
  "appState (exec [RouteFound r1, Resume 0 (OutlineSettles (Settles (Fulfilled []))),
      Resume 0 (TextSettles (Settles (Rejected (JsError ''quota''))))]) = PLANNING
   \<and> story (exec [RouteFound r1, Resume 0 (OutlineSettles (Settles (Fulfilled []))),
      Resume 0 (TextSettles (Settles (Rejected (JsError ''quota''))))]) = None
   \<and> route (exec [RouteFound r1, Resume 0 (OutlineSettles (Settles (Fulfilled []))),
      Resume 0 (TextSettles (Settles (Rejected (JsError ''quota''))))]) = Some r1
   \<and> (attempt_of (procs (step (exec [RouteFound r1])
          (Resume 0 (OutlineSettles (Settles (Fulfilled []))))) ! 0) = None
      \<or> attempt_of (procs (step (exec [RouteFound r1])
          (Resume 0 (OutlineSettles (Settles (Fulfilled []))))) ! 0)
        = attempt_of (procs (exec [RouteFound r1]) ! 0))"
proof -
  let ?evs = "[RouteFound r1, Resume 0 (OutlineSettles (Settles (Fulfilled [])))]"
  have v: "valid ?evs"
    by (simp add: guard_defs example_defs handler_defs)
  have a: "0 < length (procs (exec ?evs)) \<and> procs (exec ?evs) ! 0 = InitText r1 10 []"
    by (simp add: example_defs handler_defs)
  have f: "initFails (InitText r1 10 []) (TextSettles (Settles (Rejected (JsError ''quota''))))
             (JsError ''quota'')"
    by simp
  have c: "exec [RouteFound r1, Resume 0 (OutlineSettles (Settles (Fulfilled []))),
      Resume 0 (TextSettles (Settles (Rejected (JsError ''quota''))))]
      = step (exec ?evs) (Resume 0 (TextSettles (Settles (Rejected (JsError ''quota'')))))"
    by (simp add: exec_def)
  have k: "0 < length (procs (exec [RouteFound r1]))"
    by (simp add: example_defs handler_defs)
  have at: "attempt_of (InitText r1 10 []) = Some r1"
    by simp
  have "appState (step (exec ?evs) (Resume 0 (TextSettles (Settles (Rejected (JsError ''quota'')))))) = PLANNING
      \<and> story (step (exec ?evs) (Resume 0 (TextSettles (Settles (Rejected (JsError ''quota'')))))) = None
      \<and> route (step (exec ?evs) (Resume 0 (TextSettles (Settles (Rejected (JsError ''quota''))))))
         = Some r1"
    using failed_generation_frame
            [where evs = ?evs and pid = 0 and p = "InitText r1 10 []"
               and r = "TextSettles (Settles (Rejected (JsError ''quota'')))"
               and e = "JsError ''quota''"]
          v a f at
    by metis
  moreover have "attempt_of (procs (step (exec [RouteFound r1])
          (Resume 0 (OutlineSettles (Settles (Fulfilled []))))) ! 0) = None
      \<or> attempt_of (procs (step (exec [RouteFound r1])
          (Resume 0 (OutlineSettles (Settles (Fulfilled []))))) ! 0)
        = attempt_of (procs (exec [RouteFound r1]) ! 0)"
    using failed_generation_frame
            [where k = 0 and s = "exec [RouteFound r1]"
               and ev = "Resume 0 (OutlineSettles (Settles (Fulfilled [])))"]
          k
    by blast
  ultimately show ?thesis
    unfolding c by blast
qed


section \<open>The audio context\<close>

text \<open>
  C5, at the inputs where it fails. The audio request of the initial generation runs
  into its deadline: the invocation has ended and its context is still open. The audio
  request of the background invocation for segment 2 rejects: the first context was
  closed, the second stays open.
\<close>

theorem audio_failure_leaks_context:
  "contexts (exec [RouteFound r1,
      Resume 0 (OutlineSettles (Settles (Fulfilled [''Leave'', ''Arrive'']))),
      Resume 0 (TextSettles (Settles (Fulfilled (seg 1)))),
      Resume 0 (AudioSettles Deadline)]) = [True]
   \<and> procs (exec [RouteFound r1,
      Resume 0 (OutlineSettles (Settles (Fulfilled [''Leave'', ''Arrive'']))),
      Resume 0 (TextSettles (Settles (Fulfilled (seg 1)))),
      Resume 0 (AudioSettles Deadline)]) = [Finished]
   \<and> contexts (exec (first_segment_ready @
        [Effect, Resume 1 (TextSettles (Settles (Fulfilled (seg 2)))),
         Resume 1 (AudioSettles (Settles (Rejected (JsError ''503''))))])) = [False, True]
   \<and> procs (exec (first_segment_ready @
        [Effect, Resume 1 (TextSettles (Settles (Fulfilled (seg 2)))),
         Resume 1 (AudioSettles (Settles (Rejected (JsError ''503''))))])) = [Finished, Finished]"
  by (simp add: example_defs handler_defs)

section \<open>The route planner's limit\<close>

text \<open>
  C9. With both addresses given and the maps loaded, a resolved route ends in the
  too-long error exactly when its duration exceeds 14400 seconds, and then the
  application state is untouched; a route of at most 14400 seconds is handed to
  \<^verbatim>\<open>handleGenerateStory\<close> with that duration.
\<close>

theorem route_too_long:
  "finalStart \<noteq> [] \<and> finalEnd \<noteq> [] \<and> mapsLoaded \<longrightarrow>
     ((handleCalculate finalStart finalEnd mode selectedVoice selectedStyle mapsLoaded (DirectionsOK leg)
         = SetError ''Sorry, this journey is too long. Please select a route under 4 hours.'')
        = (duration_value leg > 14400))
     \<and> (duration_value leg > 14400 \<longrightarrow>
          planner_step (handleCalculate finalStart finalEnd mode selectedVoice selectedStyle mapsLoaded (DirectionsOK leg)) s = s)
     \<and> (duration_value leg \<le> 14400 \<longrightarrow>
          planner_step (handleCalculate finalStart finalEnd mode selectedVoice selectedStyle mapsLoaded (DirectionsOK leg)) s
            = handleGenerateStory
                \<lparr>startAddress = start_address leg, endAddress = end_address leg,
                 distance = distance_text leg, duration = duration_text leg,
                 durationSeconds = duration_value leg, travelMode = mode,
                 voiceName = selectedVoice, storyStyle = selectedStyle\<rparr> s)"
  by (simp add: handleCalculate_def)

theorem route_too_long_witness:
  "handleCalculate ''A'' ''B'' WALKING ''Kore'' NOIR True
     (DirectionsOK \<lparr>start_address = ''A'', end_address = ''B'', distance_text = ''900 km'',
        duration_text = ''4 hours 1 min'', duration_value = 14401\<rparr>)
     = SetError ''Sorry, this journey is too long. Please select a route under 4 hours.''
   \<and> planner_step (handleCalculate ''A'' ''B'' WALKING ''Kore'' NOIR True
     (DirectionsOK \<lparr>start_address = ''A'', end_address = ''B'', distance_text = ''1 km'',
        duration_text = ''20 mins'', duration_value = 1200\<rparr>)) initial
     = handleGenerateStory r1 initial"
  using route_too_long [of "''A''" "''B''" True WALKING "''Kore''" NOIR
          "\<lparr>start_address = ''A'', end_address = ''B'', distance_text = ''900 km'',
             duration_text = ''4 hours 1 min'', duration_value = 14401\<rparr>" initial]
        route_too_long [of "''A''" "''B''" True WALKING "''Kore''" NOIR
          "\<lparr>start_address = ''A'', end_address = ''B'', distance_text = ''1 km'',
             duration_text = ''20 mins'', duration_value = 1200\<rparr>" initial]
  by (simp add: r1_def)


section \<open>The timeline stays sorted and free of duplicates\<close>










lemma merge_absent:
  "\<not> list_ex (\<lambda>sg. index sg = idx) (segments st) \<Longrightarrow>
     mergeSegment idx d b (Some st)
       = Some (st\<lparr>segments := sort_key index (segments st @ [withAudio d b])\<rparr>)"
  by (simp add: mergeSegment_def)



lemma merge_contiguous:
  assumes "contiguous st" and "index d = int (length (segments st)) + 1"
  shows "\<exists>st'. mergeSegment (int (length (segments st)) + 1) d b (Some st) = Some st'
           \<and> contiguous st'"
proof -
  let ?n = "int (length (segments st))"
  have ix: "map index (segments st) = [1..?n]"
    using assms(1) by (simp add: contiguous_def)
  have "index ` set (segments st) = set [1..?n]"
    using arg_cong [OF ix, of set] by simp
  then have "\<forall>sg \<in> set (segments st). index sg \<le> ?n"
    by auto
  then have absent: "\<not> list_ex (\<lambda>sg. index sg = ?n + 1) (segments st)"
    by (auto simp: list_ex_iff)
  have app: "map index (segments st @ [withAudio d b]) = [1..?n + 1]"
    using ix assms(2) upto_rec2 [of 1 "?n + 1"] by (simp add: withAudio_def)
  then have "sorted (map index (segments st @ [withAudio d b]))"
    by (simp only: sorted_upto)
  then have "sort_key index (segments st @ [withAudio d b]) = segments st @ [withAudio d b]"
    by (rule sort_key_id_if_sorted)
  then have "contiguous (st\<lparr>segments := sort_key index (segments st @ [withAudio d b])\<rparr>)"
    using app by (simp add: contiguous_def add.commute del: sort_key_simps)
  then show ?thesis
    using absent by (simp add: merge_absent del: sort_key_simps)
qed

lemma live_nth:
  assumes "filter (\<lambda>p. p \<noteq> Finished) ps = [p]" and "pid < length ps"
    and "ps ! pid \<noteq> Finished"
  shows "ps ! pid = p"
proof -
  have "ps ! pid \<in> set (filter (\<lambda>p. p \<noteq> Finished) ps)"
    using assms(2,3) by simp
  then have "ps ! pid \<in> set [p]"
    by (simp only: assms(1))
  then show ?thesis by simp
qed

lemma live_update:
  "filter (\<lambda>p. p \<noteq> Finished) ps = [p] \<Longrightarrow> pid < length ps \<Longrightarrow> ps ! pid \<noteq> Finished
     \<Longrightarrow> filter (\<lambda>p. p \<noteq> Finished) (ps[pid := q]) = (if q = Finished then [] else [q])"
proof (induction ps arbitrary: pid)
  case Nil
  then show ?case by simp
next
  case (Cons x xs)
  show ?case
  proof (cases pid)
    case 0
    then show ?thesis using Cons.prems by (auto split: if_splits)
  next
    case (Suc k)
    have k: "k < length xs" "xs ! k \<noteq> Finished" using Cons.prems Suc by simp_all
    then have "filter (\<lambda>p. p \<noteq> Finished) xs \<noteq> []"
      by (auto simp: filter_empty_conv)
    then have x: "x = Finished" using Cons.prems(1) by (auto split: if_splits)
    then show ?thesis using Cons.IH [of k] Cons.prems k Suc by simp
  qed
qed

lemma live_none:
  "filter (\<lambda>p. p \<noteq> Finished) ps = [] \<Longrightarrow> pid < length ps \<Longrightarrow> ps ! pid = Finished"
  by (metis (mono_tags, lifting) filter_empty_conv nth_mem)


lemma second_segment_ready_run:
  "calm second_segment_ready \<and> valid second_segment_ready
   \<and> story (exec second_segment_ready) = Some st12"
  by (simp add: second_segment_ready_def guard_defs example_defs handler_defs st12_def)



section \<open>Single flight and contiguous indices\<close>

lemma answers_not_Finished: "answers p r \<Longrightarrow> p \<noteq> Finished"
  by (cases p) simp_all

lemma contiguous_first:
  "index d = 1 \<Longrightarrow>
     contiguous \<lparr>totalSegmentsEstimate = estimate, outline = beats, segments = [withAudio d b]\<rparr>"
  by (simp add: contiguous_def withAudio_def)

lemma resume_calm_inv:
  assumes "calm_inv s" and "pid < length (procs s)" and "answers (procs s ! pid) r"
  shows "calm_inv (resume pid (procs s ! pid) r s)"
proof -
  let ?p = "procs s ! pid"
  have nf: "?p \<noteq> Finished"
    using assms(3) by (rule answers_not_Finished)
  have ne: "live s \<noteq> []"
    using live_none [of "procs s" pid] nf assms(2) by (auto simp: live_def)
  have one: "live s = [q] \<Longrightarrow> q = ?p" for q
    using live_nth [of "procs s" q pid] nf assms(2) by (simp add: live_def)
  have lu: "live s = [q] \<Longrightarrow>
      filter (\<lambda>p. p \<noteq> Finished) ((procs s)[pid := q']) = (if q' = Finished then [] else [q'])" for q q'
    using live_update [of "procs s" q pid q'] nf assms(2) by (simp add: live_def)
  show ?thesis
  proof (cases "appState s")
    case PLANNING
    then show ?thesis using assms(1) ne by (simp add: calm_inv_def)
  next
    case ROUTE_CONFIRMED
    then show ?thesis using assms(1) ne by (simp add: calm_inv_def)
  next
    case GENERATING_INITIAL_SEGMENT
    then obtain q where q: "live s = [q]" "initial_stage q"
      and rest: "route s \<noteq> None" "story s = None" "\<not> isGeneratingRef s"
      using assms(1) by (auto simp: calm_inv_def)
    have p: "initial_stage ?p" using one [OF q(1)] q(2) by simp
    note lu' = lu [OF q(1)]
    show ?thesis
    proof (cases ?p)
      case (InitOutline details estimate)
      then show ?thesis
        using assms(3) rest GENERATING_INITIAL_SEGMENT lu'
        by (cases r; cases "race ''Story outline generation timed out'' (case r of OutlineSettles sg \<Rightarrow> sg)")
           (auto simp: calm_inv_def live_def initialCatch_def)
    next
      case (InitText details estimate beats)
      then show ?thesis
        using assms(3) rest GENERATING_INITIAL_SEGMENT lu'
        by (cases r; cases "race ''Initial text generation timed out'' (case r of TextSettles sg \<Rightarrow> sg)")
           (auto simp: calm_inv_def live_def initialCatch_def elim: race.elims)
    next
      case (InitAudio details estimate beats d c)
      then show ?thesis
        using assms(3) rest GENERATING_INITIAL_SEGMENT lu' p
        by (cases r; cases "race ''Initial audio generation timed out'' (case r of AudioSettles sg \<Rightarrow> sg)")
           (auto simp: calm_inv_def live_def initialCatch_def)
    next
      case (InitClose details estimate beats d b c)
      then show ?thesis
        using assms(3) rest GENERATING_INITIAL_SEGMENT lu' p
        by (cases r; cases "case r of CloseSettles oc \<Rightarrow> oc")
           (auto simp: calm_inv_def live_def initialCatch_def contiguous_first)
    qed (use p in simp_all)
  next
    case READY_TO_PLAY
    then obtain st where st: "story s = Some st" "contiguous st" "route s \<noteq> None"
      and lk: "if isGeneratingRef s
               then \<exists>p. live s = [p] \<and> background_for (int (length (segments st)) + 1) p
               else live s = []"
      using assms(1) by (auto simp: calm_inv_def)
    then have locked: "isGeneratingRef s" using ne by (auto split: if_splits)
    then obtain q where q: "live s = [q]" "background_for (int (length (segments st)) + 1) q"
      using lk by auto
    have p: "background_for (int (length (segments st)) + 1) ?p" using one [OF q(1)] q(2) by simp
    note lu' = lu [OF q(1)]
    have failed: "calm_inv (backgroundFinally pid (backgroundCatch idx e s))" for idx e
      using st READY_TO_PLAY lu'
      by (simp add: calm_inv_def live_def backgroundFinally_def backgroundCatch_def)
    show ?thesis
    proof (cases ?p)
      case (BgText rt idx)
      then show ?thesis
        using assms(3) st READY_TO_PLAY lu' p locked failed
        by (cases r; cases "race (''Text generation timed out for segment '' @ show_int idx) (case r of TextSettles sg \<Rightarrow> sg)")
           (auto simp: calm_inv_def live_def elim: race.elims)
    next
      case (BgAudio idx d c)
      then show ?thesis
        using assms(3) st READY_TO_PLAY lu' p locked failed
        by (cases r; cases "race (''Audio generation timed out for segment '' @ show_int idx) (case r of AudioSettles sg \<Rightarrow> sg)")
           (auto simp: calm_inv_def live_def)
    next
      case (BgClose idx d b c)
      obtain st' where st': "mergeSegment (int (length (segments st)) + 1) d b (Some st) = Some st'"
          "contiguous st'"
        using merge_contiguous [OF st(2), of d b] p BgClose by auto
      have "calm_inv (backgroundFinally pid
              (s\<lparr>contexts := (contexts s)[c := False],
                 story := mergeSegment idx d b (story s),
                 console := console s @ [SegmentReady idx]\<rparr>))"
        using st st' READY_TO_PLAY lu' p BgClose
        by (simp add: calm_inv_def live_def backgroundFinally_def)
      then show ?thesis
        using assms(3) BgClose failed
        by (cases r; cases "case r of CloseSettles oc \<Rightarrow> oc") auto
    qed (use p in simp_all)
  qed
qed

lemma step_calm_inv:
  assumes "calm_inv s" and "enabled s e" and "e = Reset \<longrightarrow> idle s"
  shows "calm_inv (step s e)"
proof (cases e)
  case (RouteFound details)
  then show ?thesis
    using assms(1,2)
    by (cases "appState s") (simp_all add: calm_inv_def live_def handleGenerateStory_def Let_def isLocked_def)
next
  case Effect
  show ?thesis
  proof (cases "bufferingEffect s = s")
    case True
    then show ?thesis using assms(1) Effect by simp
  next
    case False
    then show ?thesis
      using assms(1) Effect
      by (cases "appState s")
         (auto simp: calm_inv_def live_def bufferingEffect_def generateNextSegment_def Let_def
               split: option.splits if_splits)
  qed
next
  case (Resume pid r)
  then show ?thesis using assms resume_calm_inv by simp
next
  case Reset
  then have "live s = []"
    using assms(3) by (simp add: idle_def live_def list_all_iff filter_empty_conv)
  then show ?thesis
    using Reset by (simp add: calm_inv_def live_def handleReset_def)
next
  case (SegmentChange i)
  have "live (s\<lparr>currentPlayingIndex := i\<rparr>) = live s"
    by (simp add: live_def)
  then show ?thesis
    using assms(1) SegmentChange by (cases "appState s") (auto simp: calm_inv_def)
qed

lemma run_calm_inv:
  "calm_inv s \<Longrightarrow> calm_from s evs \<Longrightarrow> calm_inv (run s evs)"
  by (induction evs arbitrary: s) (simp_all add: step_calm_inv)

lemma initial_calm_inv: "calm_inv initial"
  by (simp add: calm_inv_def initial_def live_def)

lemma calm_inv_executing:
  assumes "calm_inv s"
  shows "length (executing s) \<le> 1 \<and> (isGeneratingRef s = (executing s \<noteq> []))"
proof -
  have ex: "executing s = filter isBackground (live s)"
    by (auto simp: executing_def live_def intro!: filter_cong)
  have bg: "background_for n p \<Longrightarrow> isBackground p" for n p
    by (cases p) simp_all
  have ini: "initial_stage p \<Longrightarrow> \<not> isBackground p" for p
    by (cases p) simp_all
  show ?thesis
    using assms
    by (cases "appState s") (auto simp: calm_inv_def ex dest: bg ini split: if_splits)
qed

lemma calm_inv_live:
  assumes "calm_inv s"
  shows "length (live s) \<le> 1"
  using assms by (cases "appState s") (auto simp: calm_inv_def split: if_splits)

lemma calm_inv_contiguous:
  assumes "calm_inv s" and "story s = Some st"
  shows "contiguous st"
  using assms by (cases "appState s") (auto simp: calm_inv_def)


lemma calm_run_inv: "calm evs \<Longrightarrow> calm_inv (exec evs)"
  using run_calm_inv [OF initial_calm_inv, of evs] by (simp add: calm_def exec_def)

lemma background_completion_releases:
  assumes "pid < length (procs s)" and "isBackground (procs s ! pid)"
    and "procs (step s (Resume pid r)) ! pid = Finished"
  shows "\<not> isGeneratingRef (step s (Resume pid r))"
proof (cases "procs s ! pid")
  case (BgText rt idx)
  then show ?thesis
    using assms
    by (cases r; cases "race (''Text generation timed out for segment '' @ show_int idx) (case r of TextSettles sg \<Rightarrow> sg)")
       (auto simp: backgroundCatch_def backgroundFinally_def)
next
  case (BgAudio idx d c)
  then show ?thesis
    using assms
    by (cases r; cases "race (''Audio generation timed out for segment '' @ show_int idx) (case r of AudioSettles sg \<Rightarrow> sg)")
       (auto simp: backgroundCatch_def backgroundFinally_def)
next
  case (BgClose idx d b c)
  then show ?thesis
    using assms
    by (cases r; cases "case r of CloseSettles oc \<Rightarrow> oc")
       (auto simp: backgroundCatch_def backgroundFinally_def)
qed (use assms in simp_all)

text \<open>
  C2, as stated: after the journey is ended while the second segment is being
  generated and a new journey has its first segment, two background invocations are
  suspended at once.
\<close>

theorem two_pipelines_after_reset:
  "valid restart_while_buffering
   \<and> executing (exec restart_while_buffering) = [BgText r1 2, BgText r1 2]"
  by (simp add: restart_while_buffering_def guard_defs example_defs handler_defs executing_def)

text \<open>
  C2, amended. In a run in which the journey is never ended while an invocation is
  suspended, at most one background invocation is suspended at any moment, at most
  one invocation of either kind, and the lock is held exactly while a background
  invocation is. In every state: an invocation is only started
  with the lock free and holds it from the step that starts it; with the lock held,
  \<^verbatim>\<open>generateNextSegment\<close> and the effect change nothing; and when a background
  invocation ends, by success or by failure, the lock is free.
\<close>

theorem single_flight:
  "(calm evs \<longrightarrow>
      length (executing (exec evs)) \<le> 1
      \<and> length (live (exec evs)) \<le> 1
      \<and> (isGeneratingRef (exec evs) = (executing (exec evs) \<noteq> [])))
   \<and> (procs (generateNextSegment idx s) \<noteq> procs s \<longrightarrow>
        \<not> isGeneratingRef s \<and> isGeneratingRef (generateNextSegment idx s))
   \<and> (isGeneratingRef s \<longrightarrow> generateNextSegment idx s = s \<and> bufferingEffect s = s)
   \<and> (pid < length (procs s) \<and> isBackground (procs s ! pid)
        \<and> procs (step s (Resume pid r)) ! pid = Finished \<longrightarrow>
        \<not> isGeneratingRef (step s (Resume pid r)))"
proof -
  have a: "calm evs \<longrightarrow>
      length (executing (exec evs)) \<le> 1
      \<and> length (live (exec evs)) \<le> 1
      \<and> (isGeneratingRef (exec evs) = (executing (exec evs) \<noteq> []))"
    using calm_inv_executing [of "exec evs"] calm_inv_live [of "exec evs"] calm_run_inv [of evs]
    by blast
  have b: "procs (generateNextSegment idx s) \<noteq> procs s \<longrightarrow>
        \<not> isGeneratingRef s \<and> isGeneratingRef (generateNextSegment idx s)"
    by (auto simp: generateNextSegment_def Let_def split: option.splits)
  have c: "isGeneratingRef s \<longrightarrow> generateNextSegment idx s = s \<and> bufferingEffect s = s"
    by (auto simp: generateNextSegment_def bufferingEffect_def Let_def split: option.splits)
  show ?thesis
    using a b c background_completion_releases [of pid s r] by blast
qed

theorem single_flight_witness:
  "length (executing (exec (first_segment_ready @ [Effect]))) \<le> 1
   \<and> isGeneratingRef (exec (first_segment_ready @ [Effect]))
   \<and> bufferingEffect (exec (first_segment_ready @ [Effect])) = exec (first_segment_ready @ [Effect])
   \<and> isGeneratingRef (generateNextSegment 2 (exec first_segment_ready))
   \<and> \<not> isGeneratingRef (step (exec (first_segment_ready @ [Effect]))
        (Resume 1 (TextSettles Deadline)))"
proof -
  let ?s = "exec (first_segment_ready @ [Effect])"
  have a: "calm (first_segment_ready @ [Effect])"
    by (simp add: guard_defs example_defs handler_defs)
  have p: "procs ?s = [Finished, BgText r1 2]"
    by (simp add: example_defs handler_defs)
  have lk: "isGeneratingRef ?s"
    by (simp add: example_defs handler_defs)
  have b: "procs (generateNextSegment 2 (exec first_segment_ready))
             \<noteq> procs (exec first_segment_ready)"
    by (simp add: example_defs handler_defs)
  have c: "1 < length (procs ?s) \<and> isBackground (procs ?s ! 1)
             \<and> procs (step ?s (Resume 1 (TextSettles Deadline))) ! 1 = Finished"
    by (simp add: p backgroundFinally_def backgroundCatch_def)
  have "length (executing ?s) \<le> 1"
    using single_flight [of "first_segment_ready @ [Effect]"] a by blast
  moreover have "bufferingEffect ?s = ?s"
    using single_flight [where s = ?s] lk by blast
  moreover have "isGeneratingRef (generateNextSegment 2 (exec first_segment_ready))"
    using single_flight [where idx = 2 and s = "exec first_segment_ready"] b by blast
  moreover have "\<not> isGeneratingRef (step ?s (Resume 1 (TextSettles Deadline)))"
    using single_flight [where pid = 1 and s = ?s and r = "TextSettles Deadline"] c by blast
  ultimately show ?thesis
    using lk by blast
qed

text \<open>
  C10, as stated: the third segment of a journey that was ended is merged into the
  story of the next journey, whose indices are then 1 and 3.
\<close>

theorem gap_after_reset:
  "valid late_merge
   \<and> story (exec late_merge)
      = Some \<lparr>totalSegmentsEstimate = 10, outline = [''Leave'', ''Arrive''],
              segments = [withAudio (seg 1) 7, withAudio (seg 3) 9]\<rparr>
   \<and> map index [withAudio (seg 1) 7, withAudio (seg 3) 9] = [1, 3]"
  by (simp add: late_merge_def second_segment_ready_def guard_defs example_defs handler_defs)

text \<open>
  C10, amended. In a run in which the journey is never ended while an invocation is
  suspended, the indices of the story's segments are 1, 2, ... up to the number of
  segments.
\<close>

theorem contiguous_indices:
  "calm evs \<and> story (exec evs) = Some st \<longrightarrow>
     map index (segments st) = [1..int (length (segments st))]"
  using calm_inv_contiguous [of "exec evs" st] calm_run_inv [of evs]
  by (auto simp: contiguous_def)

theorem contiguous_indices_witness:
  "map index (segments st12) = [1..int (length (segments st12))]"
  using contiguous_indices [of second_segment_ready st12] second_segment_ready_run
  by blast

end
